theory Spec2Isabelle
  imports Complex_Main
begin

section \<open>Crease identification: data model\<close>

text \<open>
  A face is a triple of vertex indices, an edge the sorted pair of two vertex indices.
  Python exceptions are values of \<open>error\<close>; a function that can raise returns
  \<open>error + 'a\<close> with \<open>Inl\<close> for the exception. Angles and thresholds are finite
  floats, read as reals: rounding is not part of the model.
\<close>

type_synonym face = "nat \<times> nat \<times> nat"
type_synonym edge = "nat \<times> nat"

datatype error =
    IndexError
  | KeyError
  | TypeError
  | ValueError
  | ZeroDivisionError
  | SystemExit

section \<open>Dictionaries of lists, in insertion order\<close>

text \<open>
  Both tools fill a dictionary with
  \<^verbatim>\<open>if k not in d: d[k] = []\<close> followed by \<^verbatim>\<open>d[k].append(v)\<close>.
  A Python dictionary keeps its keys in insertion order, so it is an association list
  with one pair per key; \<open>dict_append\<close> is that two-line idiom.
\<close>

fun dict_append :: "('k \<times> 'v list) list \<Rightarrow> 'k \<Rightarrow> 'v \<Rightarrow> ('k \<times> 'v list) list" where
  "dict_append [] k v = [(k, [v])]"
| "dict_append ((k', vs) # m) k v =
     (if k' = k then (k', vs @ [v]) # m else (k', vs) # dict_append m k v)"

section \<open>tools/visualize_regions.py: get_region_boundary_edges\<close>

text \<open>\<^verbatim>\<open>tuple(sorted([a, b]))\<close>\<close>

definition sorted_edge :: "nat \<Rightarrow> nat \<Rightarrow> edge" where
  "sorted_edge a b = (if b < a then (b, a) else (a, b))"

text \<open>The three edges of a face, in the order the source lists them.\<close>

fun face_edges :: "face \<Rightarrow> edge list" where
  "face_edges (v0, v1, v2) = [sorted_edge v0 v1, sorted_edge v1 v2, sorted_edge v2 v0]"

text \<open>The inner loop \<^verbatim>\<open>for edge in edges\<close> for one face.\<close>

definition add_face_edges :: "(edge \<times> 'i list) list \<Rightarrow> face \<Rightarrow> 'i \<Rightarrow> (edge \<times> 'i list) list" where
  "add_face_edges m fc face_idx = foldl (\<lambda>m' e. dict_append m' e face_idx) m (face_edges fc)"

text \<open>
  \<^verbatim>\<open>faces[face_idx]\<close> on the array of faces, for the face indices read from a file: a
  negative index counts from the end, and an index outside both ranges raises IndexError.
\<close>

definition face_at :: "face list \<Rightarrow> int \<Rightarrow> error + face" where
  "face_at faces face_idx =
     (let n = int (length faces) in
      if 0 \<le> face_idx \<and> face_idx < n then Inr (faces ! nat face_idx)
      else if - n \<le> face_idx \<and> face_idx < 0 then Inr (faces ! nat (n + face_idx))
      else Inl IndexError)"

text \<open>The outer loop \<^verbatim>\<open>for face_idx in face_indices\<close>.\<close>

fun edge_to_faces_loop ::
  "face list \<Rightarrow> int list \<Rightarrow> (edge \<times> int list) list \<Rightarrow> error + (edge \<times> int list) list" where
  "edge_to_faces_loop faces [] m = Inr m"
| "edge_to_faces_loop faces (face_idx # rest) m =
     (case face_at faces face_idx of
        Inl e \<Rightarrow> Inl e
      | Inr fc \<Rightarrow> edge_to_faces_loop faces rest (add_face_edges m fc face_idx))"

definition get_region_boundary_edges :: "face list \<Rightarrow> int list \<Rightarrow> error + edge list" where
  "get_region_boundary_edges faces face_indices =
     (case edge_to_faces_loop faces face_indices [] of
        Inl e \<Rightarrow> Inl e
      | Inr edge_to_faces \<Rightarrow>
          Inr (map fst (filter (\<lambda>(edge, face_list). length face_list = 1) edge_to_faces)))"

text \<open>An index that \<^verbatim>\<open>faces[face_idx]\<close> accepts, and the face it denotes.\<close>

definition index_ok :: "face list \<Rightarrow> int \<Rightarrow> bool" where
  "index_ok faces face_idx =
     (- int (length faces) \<le> face_idx \<and> face_idx < int (length faces))"

definition indexed_face :: "face list \<Rightarrow> int \<Rightarrow> face" where
  "indexed_face faces face_idx =
     faces ! nat (if face_idx < 0 then int (length faces) + face_idx else face_idx)"

text \<open>
  The incidences the loop feeds to the dictionary: one pair (edge, face index) for each
  of the three edge slots of each listed face, in visiting order. \<open>face_of\<close> gives the
  face an index denotes.
\<close>

definition incidences :: "('i \<Rightarrow> face) \<Rightarrow> 'i list \<Rightarrow> (edge \<times> 'i) list" where
  "incidences face_of face_indices =
     concat (map (\<lambda>i. map (\<lambda>e. (e, i)) (face_edges (face_of i))) face_indices)"

definition incident_faces :: "('i \<Rightarrow> face) \<Rightarrow> 'i list \<Rightarrow> edge \<Rightarrow> 'i list" where
  "incident_faces face_of face_indices e =
     map snd (filter (\<lambda>p. fst p = e) (incidences face_of face_indices))"

text \<open>A well-formed face has three distinct vertex indices.\<close>

fun distinct_face :: "face \<Rightarrow> bool" where
  "distinct_face (v0, v1, v2) = (v0 \<noteq> v1 \<and> v1 \<noteq> v2 \<and> v2 \<noteq> v0)"

section \<open>Decimal text of integers\<close>

text \<open>
  \<^verbatim>\<open>csv.writer\<close> writes each value with \<^verbatim>\<open>str\<close>; the reader hands every field back
  as text and the tool converts it with \<^verbatim>\<open>int\<close>. A CSV file is modelled as the list of
  its rows and a row as the list of its fields: splitting lines at the terminator and
  fields at the comma is the csv library's work, and no field written here holds a
  comma, a quote or a line break.
\<close>

definition digit_char :: "nat \<Rightarrow> char" where
  "digit_char d = ''0123456789'' ! d"

function str_nat :: "nat \<Rightarrow> string" where
  "str_nat n = (if n < 10 then [digit_char n] else str_nat (n div 10) @ [digit_char (n mod 10)])"
  by pat_completeness auto
termination
  by (relation "measure id") auto

declare str_nat.simps [simp del]

definition is_digit :: "char \<Rightarrow> bool" where
  "is_digit c = (c \<in> set ''0123456789'')"

definition digit_val :: "char \<Rightarrow> nat" where
  "digit_val c = of_char c - 48"

definition parse_digits :: "string \<Rightarrow> error + nat" where
  "parse_digits ds =
     (if ds \<noteq> [] \<and> list_all is_digit ds
      then Inr (foldl (\<lambda>a c. 10 * a + digit_val c) 0 ds)
      else Inl ValueError)"

text \<open>
  \<^verbatim>\<open>int(s)\<close> on a decimal literal with an optional sign; anything else is a
  ValueError. (Python also strips surrounding blanks and accepts single underscores
  between digits; the exporter never writes either.)
\<close>

definition py_int :: "string \<Rightarrow> error + int" where
  "py_int s =
     (case s of
        [] \<Rightarrow> Inl ValueError
      | c # ds \<Rightarrow>
          if c = CHR ''-'' then map_sum id (\<lambda>n. - int n) (parse_digits ds)
          else if c = CHR ''+'' then map_sum id int (parse_digits ds)
          else map_sum id int (parse_digits s))"

section \<open>scripts/crease_identification.py: export_regions\<close>

text \<open>
  The rows of one region: \<^verbatim>\<open>faces[face_idx]\<close> raises IndexError out of range, and the
  exception leaves the loop at that row.
\<close>

fun export_region_rows :: "face list \<Rightarrow> nat \<Rightarrow> nat list \<Rightarrow> error + string list list" where
  "export_region_rows faces region_id [] = Inr []"
| "export_region_rows faces region_id (face_idx # rest) =
     (if face_idx < length faces
      then (case faces ! face_idx of (v0, v1, v2) \<Rightarrow>
              (case export_region_rows faces region_id rest of
                 Inl e \<Rightarrow> Inl e
               | Inr rows \<Rightarrow>
                   Inr ([str_nat region_id, str_nat face_idx, str_nat v0, str_nat v1, str_nat v2]
                        # rows)))
      else Inl IndexError)"

text \<open>\<^verbatim>\<open>for region_id, face_indices in enumerate(regions)\<close>, counting from \<open>region_id\<close>.\<close>

fun export_regions_from :: "face list \<Rightarrow> nat \<Rightarrow> nat list list \<Rightarrow> error + string list list" where
  "export_regions_from faces region_id [] = Inr []"
| "export_regions_from faces region_id (face_indices # regions) =
     (case export_region_rows faces region_id face_indices of
        Inl e \<Rightarrow> Inl e
      | Inr rows \<Rightarrow>
          (case export_regions_from faces (Suc region_id) regions of
             Inl e \<Rightarrow> Inl e
           | Inr more \<Rightarrow> Inr (rows @ more)))"

definition regions_header :: "string list" where
  "regions_header = [''region_id'', ''face_index'', ''vertex1'', ''vertex2'', ''vertex3'']"

definition export_regions :: "nat list list \<Rightarrow> face list \<Rightarrow> error + string list list" where
  "export_regions regions faces =
     (case export_regions_from faces 0 regions of
        Inl e \<Rightarrow> Inl e
      | Inr rows \<Rightarrow> Inr (regions_header # rows))"

section \<open>tools/visualize_regions.py: load_regions_from_csv\<close>

text \<open>
  \<^verbatim>\<open>csv.DictReader\<close> takes the first row as the field names, skips empty rows and
  pairs the fields of every other row with the names; a name with no field gets
  \<^verbatim>\<open>None\<close>, on which \<^verbatim>\<open>int\<close> raises TypeError. \<^verbatim>\<open>row[k]\<close> for a name that is not in
  the header raises KeyError. With a repeated name the last field wins.
\<close>

definition row_int :: "string list \<Rightarrow> string list \<Rightarrow> string \<Rightarrow> error + int" where
  "row_int header row k =
     (case map_of (rev (zip header row)) k of
        Some s \<Rightarrow> py_int s
      | None \<Rightarrow> if k \<in> set header then Inl TypeError else Inl KeyError)"

fun load_rows ::
  "string list \<Rightarrow> string list list \<Rightarrow> (int \<times> int list) list \<Rightarrow> error + (int \<times> int list) list" where
  "load_rows header [] regions = Inr regions"
| "load_rows header (row # rows) regions =
     (case row_int header row ''region_id'' of
        Inl e \<Rightarrow> Inl e
      | Inr region_id \<Rightarrow>
          (case row_int header row ''face_index'' of
             Inl e \<Rightarrow> Inl e
           | Inr face_idx \<Rightarrow> load_rows header rows (dict_append regions region_id face_idx)))"

definition load_regions_from_csv :: "string list list \<Rightarrow> error + (int \<times> int list) list" where
  "load_regions_from_csv csvfile =
     (case csvfile of
        [] \<Rightarrow> Inr []
      | header # rows \<Rightarrow> load_rows header (filter (\<lambda>row. row \<noteq> []) rows) [])"

section \<open>scripts/crease_identification.py: generate_statistics\<close>

text \<open>
  A numpy reduction returns a float that may be nan. \<^verbatim>\<open>np.min\<close> and \<^verbatim>\<open>np.max\<close> raise
  ValueError on an empty sequence; \<^verbatim>\<open>np.mean\<close>, \<^verbatim>\<open>np.median\<close> and \<^verbatim>\<open>np.std\<close> return nan
  there. \<open>Root v\<close> stands for the square root of \<open>v\<close>: the standard deviation is kept
  as the root of the variance, so that every statistic can be computed exactly.
\<close>

datatype npfloat = Val real | Root real | Nan

fun np_min :: "real list \<Rightarrow> error + npfloat" where
  "np_min [] = Inl ValueError"
| "np_min (x # xs) = Inr (Val (fold min xs x))"

fun np_max :: "real list \<Rightarrow> error + npfloat" where
  "np_max [] = Inl ValueError"
| "np_max (x # xs) = Inr (Val (fold max xs x))"

definition np_mean :: "real list \<Rightarrow> npfloat" where
  "np_mean xs = (if xs = [] then Nan else Val (sum_list xs / real (length xs)))"

definition np_median :: "real list \<Rightarrow> npfloat" where
  "np_median xs =
     (if xs = [] then Nan
      else let s = sort xs; n = length xs
           in if odd n then Val (s ! (n div 2))
              else Val ((s ! (n div 2 - 1) + s ! (n div 2)) / 2))"

definition np_std :: "real list \<Rightarrow> npfloat" where
  "np_std xs =
     (if xs = [] then Nan
      else let m = sum_list xs / real (length xs)
           in Root (sum_list (map (\<lambda>x. (x - m)\<^sup>2) xs) / real (length xs)))"

text \<open>\<^verbatim>\<open>a / b\<close> on Python numbers.\<close>

definition py_div :: "real \<Rightarrow> real \<Rightarrow> error + real" where
  "py_div a b = (if b = 0 then Inl ZeroDivisionError else Inr (a / b))"

record statistics =
  theta0_threshold_deg :: real
  num_interior_edges :: nat
  num_sharp_edges :: nat
  num_smooth_regions :: nat
  region_sizes :: "nat list"
  dihedral_angle_min :: npfloat
  dihedral_angle_max :: npfloat
  dihedral_angle_mean :: npfloat
  dihedral_angle_median :: npfloat
  dihedral_angle_std :: npfloat
  sharp_edge_percentage :: real

text \<open>
  The dictionary \<open>stats\<close>, its entries evaluated in the order written; the first
  exception ends the call. \<open>dihedral_angles\<close> is the dictionary edge to angle,
  \<open>sharp_edges\<close> a Python set. The JSON file and the histogram are output only.
\<close>

definition generate_statistics ::
  "(edge \<times> real) list \<Rightarrow> edge set \<Rightarrow> nat list list \<Rightarrow> real \<Rightarrow> error + statistics" where
  "generate_statistics dihedral_angles sharp_edges regions theta0_deg =
     (let angles = map snd dihedral_angles in
      case (if angles \<noteq> [] then np_min angles else Inr (Val 0)) of
        Inl e \<Rightarrow> Inl e
      | Inr amin \<Rightarrow>
      (case (if angles \<noteq> [] then np_max angles else Inr (Val 0)) of
        Inl e \<Rightarrow> Inl e
      | Inr amax \<Rightarrow>
      (case (if dihedral_angles \<noteq> []
             then map_sum id (\<lambda>q. q * 100)
                    (py_div (real (card sharp_edges)) (real (length dihedral_angles)))
             else Inr 0) of
        Inl e \<Rightarrow> Inl e
      | Inr pct \<Rightarrow>
          Inr \<lparr> theta0_threshold_deg = theta0_deg,
                num_interior_edges = length dihedral_angles,
                num_sharp_edges = card sharp_edges,
                num_smooth_regions = length regions,
                region_sizes = map length regions,
                dihedral_angle_min = amin,
                dihedral_angle_max = amax,
                dihedral_angle_mean = (if angles \<noteq> [] then np_mean angles else Val 0),
                dihedral_angle_median = (if angles \<noteq> [] then np_median angles else Val 0),
                dihedral_angle_std = (if angles \<noteq> [] then np_std angles else Val 0),
                sharp_edge_percentage = pct \<rparr>)))"

section \<open>Dictionary lemmas\<close>

lemma map_of_dict_append:
  "map_of (dict_append m k v) k' =
     (if k' = k then Some ((case map_of m k of None \<Rightarrow> [] | Some vs \<Rightarrow> vs) @ [v])
      else map_of m k')"
  by (induction m k v rule: dict_append.induct) auto

lemma keys_dict_append:
  "map fst (dict_append m k v) = (if k \<in> fst ` set m then map fst m else map fst m @ [k])"
  by (induction m k v rule: dict_append.induct) (auto simp: image_iff)

lemma distinct_dict_append:
  "distinct (map fst m) \<Longrightarrow> distinct (map fst (dict_append m k v))"
  by (simp add: keys_dict_append)

text \<open>Feeding a list of (key, value) pairs to the dictionary, one append per pair.\<close>

definition dict_of_pairs :: "('k \<times> 'v list) list \<Rightarrow> ('k \<times> 'v) list \<Rightarrow> ('k \<times> 'v list) list" where
  "dict_of_pairs m kvs = foldl (\<lambda>m' p. dict_append m' (fst p) (snd p)) m kvs"

lemma dict_of_pairs_Nil [simp]: "dict_of_pairs m [] = m"
  by (simp add: dict_of_pairs_def)

lemma dict_of_pairs_Cons [simp]:
  "dict_of_pairs m (p # kvs) = dict_of_pairs (dict_append m (fst p) (snd p)) kvs"
  by (simp add: dict_of_pairs_def)

lemma dict_of_pairs_append:
  "dict_of_pairs m (xs @ ys) = dict_of_pairs (dict_of_pairs m xs) ys"
  by (simp add: dict_of_pairs_def)

lemma add_face_edges_pairs:
  "add_face_edges m fc i = dict_of_pairs m (map (\<lambda>e. (e, i)) (face_edges fc))"
  by (simp add: add_face_edges_def dict_of_pairs_def foldl_map)

lemma face_at_index_ok: "index_ok faces i \<Longrightarrow> face_at faces i = Inr (indexed_face faces i)"
  by (auto simp: index_ok_def face_at_def indexed_face_def Let_def)

lemma face_at_not_ok: "\<not> index_ok faces i \<Longrightarrow> face_at faces i = Inl IndexError"
  by (auto simp: index_ok_def face_at_def Let_def)

lemma face_at_Inl: "face_at faces i = Inl x \<Longrightarrow> x = IndexError"
  by (auto simp: face_at_def Let_def split: if_splits)

lemma loop_in_range:
  "\<forall>i \<in> set idxs. index_ok faces i \<Longrightarrow>
   edge_to_faces_loop faces idxs m = Inr (dict_of_pairs m (incidences (indexed_face faces) idxs))"
  by (induction idxs arbitrary: m)
     (simp_all add: incidences_def add_face_edges_pairs dict_of_pairs_append face_at_index_ok)

lemma loop_out_of_range:
  "\<exists>i \<in> set idxs. \<not> index_ok faces i \<Longrightarrow> edge_to_faces_loop faces idxs m = Inl IndexError"
  by (induction idxs arbitrary: m) (auto simp: face_at_not_ok split: sum.splits dest: face_at_Inl)

text \<open>The list stored under a key, empty when the key is absent.\<close>

definition entry :: "('k \<times> 'v list) list \<Rightarrow> 'k \<Rightarrow> 'v list" where
  "entry m k = (case map_of m k of None \<Rightarrow> [] | Some vs \<Rightarrow> vs)"

lemma map_of_dict_of_pairs:
  "map_of (dict_of_pairs m kvs) k =
     (if map_of m k = None \<and> k \<notin> fst ` set kvs then None
      else Some (entry m k @ map snd (filter (\<lambda>p. fst p = k) kvs)))"
proof (induction kvs arbitrary: m)
  case Nil
  then show ?case by (auto simp: entry_def)
next
  case (Cons p kvs)
  show ?case
    by (cases "fst p = k") (auto simp: Cons.IH map_of_dict_append entry_def split: option.splits)
qed

lemma distinct_dict_of_pairs:
  "distinct (map fst m) \<Longrightarrow> distinct (map fst (dict_of_pairs m kvs))"
  by (induction kvs arbitrary: m) (simp_all add: distinct_dict_append)

lemma boundary_filter_set:
  assumes "distinct (map fst m)"
  shows "set (map fst (filter (\<lambda>(e, fl). length fl = 1) m)) =
         {e. \<exists>fl. map_of m e = Some fl \<and> length fl = 1}"
  using assms by (induction m) (auto simp: rev_image_eqI)

lemma boundary_filter_distinct:
  "distinct (map fst m) \<Longrightarrow> distinct (map fst (filter (\<lambda>(e, fl). length fl = 1) m))"
  by (simp add: distinct_map_filter)

lemma sorted_edge_eq_iff:
  "sorted_edge a b = sorted_edge c d \<longleftrightarrow> (a = c \<and> b = d) \<or> (a = d \<and> b = c)"
  by (auto simp: sorted_edge_def)

lemma distinct_face_edges: "distinct_face fc \<Longrightarrow> distinct (face_edges fc)"
  by (cases fc) (auto simp: sorted_edge_eq_iff)

lemma tag_filter_distinct:
  "distinct es \<Longrightarrow>
   map snd (filter (\<lambda>p. fst p = e) (map (\<lambda>e'. (e', i)) es)) = (if e \<in> set es then [i] else [])"
  by (induction es) auto

lemma incident_faces_wf:
  assumes "\<forall>i \<in> set idxs. distinct_face (face_of i)"
  shows "incident_faces face_of idxs e = filter (\<lambda>i. e \<in> set (face_edges (face_of i))) idxs"
  using assms
proof (induction idxs)
  case Nil
  then show ?case by (simp add: incident_faces_def incidences_def)
next
  case (Cons i idxs)
  have d: "distinct (face_edges (face_of i))" using Cons.prems by (simp add: distinct_face_edges)
  have one: "map snd (filter (\<lambda>p. fst p = e) (map (\<lambda>e'. (e', i)) (face_edges (face_of i)))) =
        (if e \<in> set (face_edges (face_of i)) then [i] else [])"
    using d by (rule tag_filter_distinct)
  show ?case using Cons one by (simp add: incident_faces_def incidences_def)
qed


lemma singleton_set_iff_ex1: "(\<exists>x. {i \<in> A. P i} = {x}) \<longleftrightarrow> (\<exists>!i. i \<in> A \<and> P i)"
proof
  assume "\<exists>x. {i \<in> A. P i} = {x}"
  then obtain x where x: "{i \<in> A. P i} = {x}" ..
  then have "\<And>i. (i \<in> A \<and> P i) = (i = x)" by blast
  then show "\<exists>!i. i \<in> A \<and> P i" by metis
next
  assume "\<exists>!i. i \<in> A \<and> P i"
  then obtain x where "x \<in> A \<and> P x" and "\<And>y. y \<in> A \<and> P y \<Longrightarrow> y = x" by blast
  then have "{i \<in> A. P i} = {x}" by blast
  then show "\<exists>x. {i \<in> A. P i} = {x}" ..
qed

lemma length_filter_one_iff:
  assumes "distinct xs"
  shows "length (filter P xs) = 1 \<longleftrightarrow> (\<exists>!x. x \<in> set xs \<and> P x)"
proof -
  have "length (filter P xs) = card {x \<in> set xs. P x}"
    using assms distinct_card [of "filter P xs"] by simp
  then show ?thesis
    by (simp add: card_1_singleton_iff singleton_set_iff_ex1)
qed

lemma incident_faces_eq_Nil:
  "incident_faces face_of idxs e = [] \<longleftrightarrow> e \<notin> fst ` set (incidences face_of idxs)"
  by (auto simp: incident_faces_def filter_empty_conv image_iff)

section \<open>The adjacency construction of get_region_boundary_edges\<close>

text \<open>
  Claim C4. The three edges of a face pair consecutive vertices with wrap-around, each
  as (smaller index, larger index). For face indices that the array accepts the loop ends with a
  dictionary that has one entry per edge seen, holding the indices of the faces that
  contributed the edge, in visiting order; the function returns, without repetition,
  exactly the edges whose entry holds one face index. When the listed indices are
  distinct and the listed faces have three distinct vertices, these are exactly the
  edges that belong to one and only one of the listed faces.
\<close>

theorem get_region_boundary_edges_adjacency:
  assumes "\<forall>i \<in> set face_indices. index_ok faces i"
  shows "face_edges (v0, v1, v2) =
           [(min v0 v1, max v0 v1), (min v1 v2, max v1 v2), (min v2 v0, max v2 v0)]
       \<and> (\<exists>m r. edge_to_faces_loop faces face_indices [] = Inr m
            \<and> get_region_boundary_edges faces face_indices = Inr r
            \<and> distinct (map fst m)
            \<and> (\<forall>e. map_of m e =
                  (if incident_faces (indexed_face faces) face_indices e = [] then None
                   else Some (incident_faces (indexed_face faces) face_indices e)))
            \<and> distinct r
            \<and> (\<forall>e. e \<in> set r \<longleftrightarrow> length (incident_faces (indexed_face faces) face_indices e) = 1)
            \<and> (distinct face_indices \<and> (\<forall>i \<in> set face_indices. distinct_face (indexed_face faces i)) \<longrightarrow>
                 (\<forall>e. e \<in> set r \<longleftrightarrow>
                    (\<exists>!i. i \<in> set face_indices \<and> e \<in> set (face_edges (indexed_face faces i))))))"
proof -
  define m where "m = dict_of_pairs ([] :: (edge \<times> int list) list) (incidences (indexed_face faces) face_indices)"
  define r where "r = map fst (filter (\<lambda>(e, fl). length fl = 1) m)"
  have loop: "edge_to_faces_loop faces face_indices [] = Inr m"
    using assms by (simp add: loop_in_range m_def)
  have res: "get_region_boundary_edges faces face_indices = Inr r"
    by (simp add: get_region_boundary_edges_def loop r_def)
  have dm: "distinct (map fst m)"
    unfolding m_def by (rule distinct_dict_of_pairs) simp
  have look: "map_of m e =
      (if incident_faces (indexed_face faces) face_indices e = [] then None
       else Some (incident_faces (indexed_face faces) face_indices e))" for e
    unfolding m_def
    by (simp add: map_of_dict_of_pairs entry_def incident_faces_eq_Nil)
       (simp add: incident_faces_def)
  have dr: "distinct r"
    unfolding r_def using dm by (rule boundary_filter_distinct)
  have mem: "e \<in> set r \<longleftrightarrow> length (incident_faces (indexed_face faces) face_indices e) = 1" for e
  proof -
    have "e \<in> set r \<longleftrightarrow> (\<exists>fl. map_of m e = Some fl \<and> length fl = 1)"
      unfolding r_def using boundary_filter_set [OF dm] by blast
    then show ?thesis by (auto simp: look)
  qed
  have uniq: "e \<in> set r \<longleftrightarrow> (\<exists>!i. i \<in> set face_indices \<and> e \<in> set (face_edges (indexed_face faces i)))"
    if d: "distinct face_indices" and wf: "\<forall>i \<in> set face_indices. distinct_face (indexed_face faces i)" for e
  proof -
    let ?P = "\<lambda>i. e \<in> set (face_edges (indexed_face faces i))"
    have eq: "incident_faces (indexed_face faces) face_indices e = filter ?P face_indices"
      using wf by (rule incident_faces_wf)
    have dist: "distinct (filter ?P face_indices)" using d by simp
    have "length (filter ?P face_indices) = 1 \<longleftrightarrow> (\<exists>!i. i \<in> set face_indices \<and> ?P i)"
      using d by (rule length_filter_one_iff)
    then show ?thesis by (simp add: mem eq)
  qed
  have fe: "face_edges (v0, v1, v2) =
      [(min v0 v1, max v0 v1), (min v1 v2, max v1 v2), (min v2 v0, max v2 v0)]"
    by (simp add: sorted_edge_def min_def max_def)
  show ?thesis
    using fe loop res dm look dr mem uniq by blast
qed

theorem get_region_boundary_edges_adjacency_witness:
  "\<exists>r. get_region_boundary_edges [(0, 1, 2), (1, 3, 2)] [0, - 1] = Inr r
     \<and> distinct r
     \<and> (\<forall>e. e \<in> set r \<longleftrightarrow>
          (\<exists>!i. i \<in> set [0, - 1]
              \<and> e \<in> set (face_edges (indexed_face [(0, 1, 2), (1, 3, 2)] i))))"
proof -
  have h: "\<forall>i \<in> set [0, - 1 :: int]. index_ok [(0, 1, 2), (1, 3, 2 :: nat) :: face] i"
    by (simp add: index_ok_def)
  have d: "distinct [0, - 1 :: int] \<and>
      (\<forall>i \<in> set [0, - 1 :: int]. distinct_face (indexed_face [(0, 1, 2), (1, 3, 2)] i))"
    by (simp add: indexed_face_def)
  show ?thesis
    using get_region_boundary_edges_adjacency [OF h, of 0 1 2] d by blast
qed

section \<open>generate_statistics on empty and non-empty angle dictionaries\<close>

text \<open>
  Claim C10. generate_statistics never raises: neither a division by zero nor a
  reduction of an empty sequence is reached. With no interior edge the five angle
  statistics and the sharp-edge percentage are all 0.0; otherwise the percentage is
  the number of sharp edges divided by the number of interior edges, times 100.
\<close>

theorem generate_statistics_total:
  "(\<exists>st. generate_statistics dihedral_angles sharp_edges regions theta0_deg = Inr st
      \<and> (dihedral_angles = [] \<longrightarrow>
           dihedral_angle_min st = Val 0 \<and> dihedral_angle_max st = Val 0
         \<and> dihedral_angle_mean st = Val 0 \<and> dihedral_angle_median st = Val 0
         \<and> dihedral_angle_std st = Val 0 \<and> sharp_edge_percentage st = 0)
      \<and> (dihedral_angles \<noteq> [] \<longrightarrow>
           sharp_edge_percentage st =
             real (card sharp_edges) / real (length dihedral_angles) * 100
         \<and> sharp_edge_percentage st =
             real (num_sharp_edges st) / real (num_interior_edges st) * 100))"
proof (cases dihedral_angles)
  case Nil
  then show ?thesis by (simp add: generate_statistics_def)
next
  case (Cons p ps)
  then show ?thesis by (simp add: generate_statistics_def py_div_def Let_def)
qed


theorem generate_statistics_total_witness:
  "(\<exists>st. generate_statistics [] {} [[0]] 45 = Inr st
      \<and> dihedral_angle_min st = Val 0 \<and> dihedral_angle_max st = Val 0
      \<and> dihedral_angle_mean st = Val 0 \<and> dihedral_angle_median st = Val 0
      \<and> dihedral_angle_std st = Val 0 \<and> sharp_edge_percentage st = 0)
   \<and> (\<exists>st. generate_statistics [((0, 1), 90), ((1, 2), 10)] {(0, 1)} [[0], [1, 2]] 45 = Inr st
      \<and> sharp_edge_percentage st = 50)"
proof -
  have a: "\<exists>st. generate_statistics [] {} [[0]] 45 = Inr st
      \<and> dihedral_angle_min st = Val 0 \<and> dihedral_angle_max st = Val 0
      \<and> dihedral_angle_mean st = Val 0 \<and> dihedral_angle_median st = Val 0
      \<and> dihedral_angle_std st = Val 0 \<and> sharp_edge_percentage st = 0"
    using generate_statistics_total [of "[]" "{}" "[[0]]" 45] by simp
  have b: "\<exists>st. generate_statistics [((0, 1), 90), ((1, 2), 10)] {(0, 1)} [[0], [1, 2]] 45 = Inr st
      \<and> sharp_edge_percentage st = 50"
    using generate_statistics_total [of "[((0, 1), 90), ((1, 2), 10)]" "{(0, 1)}" "[[0], [1, 2]]" 45]
    by auto
  show ?thesis using a b by blast
qed

section \<open>Round trip: export_regions, then load_regions_from_csv\<close>

lemma digit_char_facts:
  assumes "d < 10"
  shows "is_digit (digit_char d)" "digit_val (digit_char d) = d"
        "digit_char d \<noteq> CHR ''-''" "digit_char d \<noteq> CHR ''+''"
proof -
  from assms have "d \<in> {0, 1, 2, 3, 4, 5, 6, 7, 8, 9}" by auto
  then show "is_digit (digit_char d)" "digit_val (digit_char d) = d"
        "digit_char d \<noteq> CHR ''-''" "digit_char d \<noteq> CHR ''+''"
    by (auto simp: digit_char_def is_digit_def digit_val_def)
qed

lemma str_nat_digits: "str_nat n \<noteq> [] \<and> list_all is_digit (str_nat n)"
proof (induction n rule: str_nat.induct)
  case (1 n)
  show ?case
  proof (cases "n < 10")
    case True
    then show ?thesis by (simp add: str_nat.simps [of n] digit_char_facts)
  next
    case False
    then show ?thesis using 1 by (simp add: str_nat.simps [of n] digit_char_facts)
  qed
qed

lemma str_nat_value: "foldl (\<lambda>a c. 10 * a + digit_val c) 0 (str_nat n) = n"
proof (induction n rule: str_nat.induct)
  case (1 n)
  show ?case
  proof (cases "n < 10")
    case True
    then show ?thesis by (simp add: str_nat.simps [of n] digit_char_facts)
  next
    case False
    then show ?thesis using 1 by (simp add: str_nat.simps [of n] digit_char_facts)
  qed
qed

lemma str_nat_head: "\<exists>c cs. str_nat n = c # cs \<and> c \<noteq> CHR ''-'' \<and> c \<noteq> CHR ''+''"
proof (induction n rule: str_nat.induct)
  case (1 n)
  show ?case
  proof (cases "n < 10")
    case True
    then show ?thesis by (simp add: str_nat.simps [of n] digit_char_facts)
  next
    case False
    then show ?thesis using 1 by (auto simp add: str_nat.simps [of n])
  qed
qed

lemma py_int_str_nat: "py_int (str_nat n) = Inr (int n)"
proof -
  obtain c cs where s: "str_nat n = c # cs" "c \<noteq> CHR ''-''" "c \<noteq> CHR ''+''"
    using str_nat_head by blast
  have "parse_digits (str_nat n) = Inr n"
    using str_nat_digits [of n] by (simp add: parse_digits_def str_nat_value)
  then show ?thesis using s by (simp add: py_int_def)
qed

text \<open>The row that export_regions writes for one face of one region.\<close>

definition region_row :: "nat \<Rightarrow> nat \<Rightarrow> face \<Rightarrow> string list" where
  "region_row region_id face_idx fc =
     (case fc of (v0, v1, v2) \<Rightarrow>
        [str_nat region_id, str_nat face_idx, str_nat v0, str_nat v1, str_nat v2])"

lemma export_region_rows_ok:
  "\<forall>f \<in> set r. f < length faces \<Longrightarrow>
   export_region_rows faces i r = Inr (map (\<lambda>f. region_row i f (faces ! f)) r)"
  by (induction r) (auto simp: region_row_def split: prod.splits)

lemma row_int_region_row:
  "row_int regions_header (region_row i f fc) ''region_id'' = Inr (int i)"
  "row_int regions_header (region_row i f fc) ''face_index'' = Inr (int f)"
  by (simp_all add: row_int_def regions_header_def region_row_def py_int_str_nat split: prod.splits)

lemma load_rows_region:
  "load_rows regions_header (map (\<lambda>f. region_row i f (faces ! f)) r @ rest) m =
   load_rows regions_header rest (dict_of_pairs m (map (\<lambda>f. (int i, int f)) r))"
  by (induction r arbitrary: m) (simp_all add: row_int_region_row)

lemma dict_append_new: "k \<notin> fst ` set m \<Longrightarrow> dict_append m k v = m @ [(k, [v])]"
  by (induction m k v rule: dict_append.induct) auto

lemma dict_append_last: "k \<notin> fst ` set m \<Longrightarrow> dict_append (m @ [(k, vs)]) k v = m @ [(k, vs @ [v])]"
  by (induction m k v rule: dict_append.induct) auto

lemma dict_of_pairs_last:
  "k \<notin> fst ` set m \<Longrightarrow>
   dict_of_pairs (m @ [(k, vs)]) (map (\<lambda>v. (k, v)) ws) = m @ [(k, vs @ ws)]"
  by (induction ws arbitrary: vs) (simp_all add: dict_append_last)

lemma dict_of_pairs_group:
  "k \<notin> fst ` set m \<Longrightarrow> ws \<noteq> [] \<Longrightarrow>
   dict_of_pairs m (map (\<lambda>v. (k, v)) ws) = m @ [(k, ws)]"
  by (cases ws) (simp_all add: dict_append_new dict_of_pairs_last)

lemma region_row_nonempty: "region_row i f fc \<noteq> []" "[] \<noteq> region_row i f fc"
  by (simp_all add: region_row_def split: prod.splits)

lemma export_load_from:
  assumes "\<forall>r \<in> set regions. r \<noteq> [] \<and> (\<forall>f \<in> set r. f < length faces)"
      and "\<forall>k \<in> fst ` set m. k < int i"
  shows "\<exists>rows. export_regions_from faces i regions = Inr rows
           \<and> (\<forall>row \<in> set rows. row \<noteq> [])
           \<and> load_rows regions_header rows m =
               Inr (m @ zip (map int [i..<i + length regions]) (map (map int) regions))"
  using assms
proof (induction regions arbitrary: i m)
  case Nil
  then show ?case by simp
next
  case (Cons r regions)
  let ?rows = "map (\<lambda>f. region_row i f (faces ! f)) r"
  let ?m = "m @ [(int i, map int r)]"
  have r: "r \<noteq> []" "\<forall>f \<in> set r. f < length faces" using Cons.prems(1) by auto
  have fresh: "int i \<notin> fst ` set m" using Cons.prems(2) by auto
  have step: "dict_of_pairs m (map (\<lambda>f. (int i, int f)) r) = ?m"
    using dict_of_pairs_group [OF fresh, of "map int r"] r(1) by (simp add: comp_def)
  have keys: "\<forall>k \<in> fst ` set ?m. k < int (Suc i)" using Cons.prems(2) by auto
  have rest: "\<forall>r \<in> set regions. r \<noteq> [] \<and> (\<forall>f \<in> set r. f < length faces)"
    using Cons.prems(1) by simp
  from Cons.IH [OF rest keys] obtain more where more:
    "export_regions_from faces (Suc i) regions = Inr more"
    "\<forall>row \<in> set more. row \<noteq> []"
    "load_rows regions_header more ?m =
       Inr (?m @ zip (map int [Suc i..<Suc i + length regions]) (map (map int) regions))"
    by blast
  have ex: "export_regions_from faces i (r # regions) = Inr (?rows @ more)"
    by (simp add: export_region_rows_ok [OF r(2)] more(1))
  have ne: "\<forall>row \<in> set (?rows @ more). row \<noteq> []"
    using more(2) by (auto simp: region_row_nonempty)
  have "load_rows regions_header (?rows @ more) m = load_rows regions_header more ?m"
    by (simp add: load_rows_region step)
  also have "\<dots> = Inr (m @ zip (map int [i..<i + length (r # regions)]) (map (map int) (r # regions)))"
    using upt_conv_Cons [of i "i + length (r # regions)"]
    by (simp add: more(3) del: upt_Suc)
  finally show ?case using ex ne by blast
qed

text \<open>
  Claim C9. For a list of regions as the pipeline produces them (no region is empty and
  every face index is an index of the face array), export_regions writes a file from
  which load_regions_from_csv reads back a dictionary whose keys are the region
  indices 0 to n-1, in that order, and whose value under region index i is the list of
  face indices of region i, in the same order.
\<close>

theorem export_load_roundtrip:
  assumes "\<forall>r \<in> set regions. r \<noteq> [] \<and> (\<forall>f \<in> set r. f < length faces)"
  shows "\<exists>csvfile loaded. export_regions regions faces = Inr csvfile
           \<and> load_regions_from_csv csvfile = Inr loaded
           \<and> loaded = zip (map int [0..<length regions]) (map (map int) regions)
           \<and> map fst loaded = map int [0..<length regions]
           \<and> (\<forall>i < length regions. map_of loaded (int i) = Some (map int (regions ! i)))"
proof -
  from export_load_from [OF assms, of "[]" 0] obtain rows where rows:
    "export_regions_from faces 0 regions = Inr rows"
    "\<forall>row \<in> set rows. row \<noteq> []"
    "load_rows regions_header rows [] =
       Inr (zip (map int [0..<length regions]) (map (map int) regions))"
    by auto
  let ?loaded = "zip (map int [0..<length regions]) (map (map int) regions)"
  have a: "export_regions regions faces = Inr (regions_header # rows)"
    by (simp add: export_regions_def rows(1))
  have "filter (\<lambda>row. row \<noteq> []) rows = rows" using rows(2) by (simp add: filter_id_conv)
  then have b: "load_regions_from_csv (regions_header # rows) = Inr ?loaded"
    by (simp add: load_regions_from_csv_def rows(3))
  have c: "map fst ?loaded = map int [0..<length regions]" by simp
  have d: "map_of ?loaded (int i) = Some (map int (regions ! i))" if "i < length regions" for i
  proof -
    have "distinct (map int [0..<length regions])" by (simp add: distinct_map inj_on_def)
    moreover have "(int i, map int (regions ! i)) \<in> set ?loaded"
      using that by (auto simp: set_zip intro!: exI [of _ i])
    ultimately show ?thesis by (intro map_of_is_SomeI) simp_all
  qed
  show ?thesis using a b c d by blast
qed

theorem export_load_roundtrip_witness:
  "\<exists>csvfile. export_regions [[0, 2], [1]] [(0, 1, 2), (1, 3, 2), (10, 11, 12)] = Inr csvfile
     \<and> load_regions_from_csv csvfile = Inr [(0, [0, 2]), (1, [1])]"
proof -
  have h: "\<forall>r \<in> set [[0, 2], [1 :: nat]]. r \<noteq> [] \<and>
     (\<forall>f \<in> set r. f < length [(0, 1, 2), (1, 3, 2), (10, 11, 12 :: nat) :: face])" by simp
  show ?thesis using export_load_roundtrip [OF h] by (auto simp: upt_rec)
qed

section \<open>The topology core (packages/topology/preprocessing.py)\<close>

text \<open>
  The module that defines compute_dihedral_angles, detect_sharp_edges and
  segment_smooth_regions is imported by the script but is not among the sources. Its
  functions are modelled from the specification's component design.
\<close>

text \<open>
  Modelled from the spec: the Adjacency Builder (build_edge_face_map, missing from the
  sources). For each face in index order, its three edges (consecutive vertices, last to
  first, endpoints sorted) get the face's index appended, the entry being created on first
  sight. This is the loop of get_region_boundary_edges run over all faces.
\<close>

definition build_edge_face_map :: "face list \<Rightarrow> (edge \<times> nat list) list" where
  "build_edge_face_map faces =
     foldl (\<lambda>m face_idx. add_face_edges m (faces ! face_idx) face_idx) [] [0..<length faces]"

text \<open>A vertex position.\<close>

type_synonym vertex = "real \<times> real \<times> real"

text \<open>
  Modelled from the spec: the Dihedral Classifier's angle mapping
  (compute_dihedral_angles, missing from the sources). Every interior edge, that is every
  entry of the adjacency map with exactly two faces, gets the dihedral angle of its two
  faces. The angle itself (normals, clamped arccosine, orientation sign) is floating-point
  geometry and is the parameter \<open>angle_at\<close>: vertices, first face, second face and edge
  to degrees.
\<close>

definition compute_dihedral_angles ::
  "(vertex list \<Rightarrow> face \<Rightarrow> face \<Rightarrow> edge \<Rightarrow> real) \<Rightarrow> vertex list \<Rightarrow> face list \<Rightarrow> (edge \<times> real) list" where
  "compute_dihedral_angles angle_at vertices faces =
     map (\<lambda>(e, fl). (e, angle_at vertices (faces ! (fl ! 0)) (faces ! (fl ! 1)) e))
       (filter (\<lambda>(e, fl). length fl = 2) (build_edge_face_map faces))"

text \<open>
  Modelled from the spec: the Sharp Edge Set (detect_sharp_edges, missing from the
  sources): the interior edges whose dihedral angle is greater than or equal to the
  threshold.
\<close>

definition detect_sharp_edges ::
  "(vertex list \<Rightarrow> face \<Rightarrow> face \<Rightarrow> edge \<Rightarrow> real) \<Rightarrow> vertex list \<Rightarrow> face list \<Rightarrow> real \<Rightarrow> edge set" where
  "detect_sharp_edges angle_at vertices faces theta0_deg =
     set (map fst (filter (\<lambda>(e, angle). angle \<ge> theta0_deg)
                     (compute_dihedral_angles angle_at vertices faces)))"

text \<open>
  Modelled from the spec: the Region Segmenter's implicit graph (part of
  segment_smooth_regions, missing from the sources). Two faces are neighbours when they
  share an interior edge that is not sharp; boundary edges, sharp edges and edges with
  more than two faces connect nothing.
\<close>

definition edge_neighbors :: "face list \<Rightarrow> edge set \<Rightarrow> nat \<Rightarrow> edge \<Rightarrow> nat list" where
  "edge_neighbors faces sharp_edges f e =
     (if e \<in> sharp_edges then []
      else (case map_of (build_edge_face_map faces) e of
              None \<Rightarrow> []
            | Some fl \<Rightarrow> if length fl = 2 then filter (\<lambda>g. g \<noteq> f) fl else []))"

text \<open>
  Modelled from the spec: the neighbours of a face through its three edges (part of
  segment_smooth_regions, missing from the sources).
\<close>

definition smooth_neighbors :: "face list \<Rightarrow> edge set \<Rightarrow> nat \<Rightarrow> nat list" where
  "smooth_neighbors faces sharp_edges f =
     concat (map (edge_neighbors faces sharp_edges f) (face_edges (faces ! f)))"

text \<open>
  Modelled from the spec: one step of the breadth-first traversal (part of
  segment_smooth_regions, missing from the sources): every neighbour not yet visited
  is marked visited and joins the queue.
\<close>

fun visit_all :: "nat list \<Rightarrow> nat list \<times> nat set \<Rightarrow> nat list \<times> nat set" where
  "visit_all [] (queue, visited) = (queue, visited)"
| "visit_all (g # gs) (queue, visited) =
     (if g \<in> visited then visit_all gs (queue, visited)
      else visit_all gs (queue @ [g], insert g visited))"

subsection \<open>Neighbours are faces of the mesh\<close>

lemma build_edge_face_map_pairs:
  "build_edge_face_map faces = dict_of_pairs [] (incidences ((!) faces) [0..<length faces])"
proof -
  have "foldl (\<lambda>m i. add_face_edges m (faces ! i) i) m idxs =
        dict_of_pairs m (incidences ((!) faces) idxs)"
    for m idxs
    by (induction idxs arbitrary: m)
       (simp_all add: incidences_def add_face_edges_pairs dict_of_pairs_append)
  then show ?thesis by (simp add: build_edge_face_map_def)
qed

lemma build_edge_face_map_range:
  assumes "map_of (build_edge_face_map faces) e = Some fl"
  shows "set fl \<subseteq> {0..<length faces}"
proof -
  have "fl = map snd (filter (\<lambda>p. fst p = e) (incidences ((!) faces) [0..<length faces]))"
    using assms
    by (simp add: build_edge_face_map_pairs map_of_dict_of_pairs entry_def split: if_splits)
  moreover have "snd ` set (incidences ((!) faces) idxs) \<subseteq> set idxs" for idxs
    by (auto simp: incidences_def)
  ultimately show ?thesis by (auto simp del: upt_Suc) fastforce
qed

lemma smooth_neighbors_range: "set (smooth_neighbors faces sharp_edges f) \<subseteq> {0..<length faces}"
proof
  fix g assume "g \<in> set (smooth_neighbors faces sharp_edges f)"
  then obtain e where e: "g \<in> set (edge_neighbors faces sharp_edges f e)"
    by (auto simp: smooth_neighbors_def)
  show "g \<in> {0..<length faces}"
  proof (cases "map_of (build_edge_face_map faces) e")
    case None
    with e show ?thesis by (simp add: edge_neighbors_def split: if_splits)
  next
    case (Some fl)
    with e have "g \<in> set fl" by (simp add: edge_neighbors_def split: if_splits)
    then show ?thesis using build_edge_face_map_range [OF Some] by blast
  qed
qed

lemma visit_all_props:
  "visit_all gs (queue, visited) = (queue', visited') \<Longrightarrow>
   \<exists>new. queue' = queue @ new \<and> visited' = visited \<union> set new \<and> distinct new
        \<and> set new \<inter> visited = {} \<and> set new \<subseteq> set gs"
proof (induction gs arbitrary: queue visited)
  case Nil
  then show ?case by simp
next
  case (Cons g gs)
  show ?case
  proof (cases "g \<in> visited")
    case True
    with Cons.prems have "visit_all gs (queue, visited) = (queue', visited')" by simp
    from Cons.IH [OF this] show ?thesis by auto
  next
    case False
    with Cons.prems have "visit_all gs (queue @ [g], insert g visited) = (queue', visited')" by simp
    from Cons.IH [OF this] obtain new where new:
      "queue' = (queue @ [g]) @ new" "visited' = insert g visited \<union> set new" "distinct new"
      "set new \<inter> insert g visited = {}" "set new \<subseteq> set gs" by blast
    show ?thesis
      by (rule exI [of _ "g # new"]) (use new False in auto)
  qed
qed

text \<open>
  Modelled from the spec: the breadth-first traversal of one component (part of
  segment_smooth_regions, missing from the sources). It terminates because every step
  either marks a new face of the mesh as visited or shortens the queue.
\<close>

function bfs :: "face list \<Rightarrow> edge set \<Rightarrow> nat list \<Rightarrow> nat set \<Rightarrow> nat list \<Rightarrow> nat list \<times> nat set" where
  "bfs faces sharp_edges [] visited region = (region, visited)"
| "bfs faces sharp_edges (f # queue) visited region =
     (case visit_all (smooth_neighbors faces sharp_edges f) (queue, visited) of
        (queue', visited') \<Rightarrow> bfs faces sharp_edges queue' visited' (region @ [f]))"
  by pat_completeness auto
termination
proof (relation "inv_image (less_than <*lex*> less_than)
        (\<lambda>(faces, sharp_edges, queue, visited, region).
           (card ({0..<length faces} - visited), length queue))", goal_cases)
  case 1
  show ?case by (intro wf_inv_image wf_lex_prod wf_less_than)
next
  case (2 faces sharp_edges f queue visited region queue' visited')
  from 2 have "visit_all (smooth_neighbors faces sharp_edges f) (queue, visited) = (queue', visited')"
    by simp
  from visit_all_props [OF this] obtain new where new:
    "queue' = queue @ new" "visited' = visited \<union> set new" "distinct new"
    "set new \<inter> visited = {}" "set new \<subseteq> set (smooth_neighbors faces sharp_edges f)" by blast
  show ?case
  proof (cases "new = []")
    case True
    with new show ?thesis by simp
  next
    case False
    then obtain g where g: "g \<in> set new" by (cases new) auto
    with new have "g \<notin> visited" "g \<in> {0..<length faces}"
      using smooth_neighbors_range by blast+
    then have "{0..<length faces} - visited' \<subset> {0..<length faces} - visited"
      using new(2) g by blast
    then have "card ({0..<length faces} - visited') < card ({0..<length faces} - visited)"
      by (intro psubset_card_mono) simp_all
    then show ?thesis by simp
  qed
qed

text \<open>
  Modelled from the spec: the Region Segmenter's outer loop (part of
  segment_smooth_regions, missing from the sources): a traversal starts from each face
  that is still unvisited, in increasing face-index order.
\<close>

fun segment_loop :: "face list \<Rightarrow> edge set \<Rightarrow> nat list \<Rightarrow> nat set \<Rightarrow> nat list list \<Rightarrow> nat list list" where
  "segment_loop faces sharp_edges [] visited regions = regions"
| "segment_loop faces sharp_edges (start # rest) visited regions =
     (if start \<in> visited then segment_loop faces sharp_edges rest visited regions
      else (case bfs faces sharp_edges [start] (insert start visited) [] of
              (region, visited') \<Rightarrow>
                segment_loop faces sharp_edges rest visited' (regions @ [region])))"

text \<open>
  Modelled from the spec: the Region Segmenter (segment_smooth_regions, missing from the
  sources): the ordered sequence of regions of the faces, given the sharp edges.
\<close>

definition segment_smooth_regions :: "face list \<Rightarrow> edge set \<Rightarrow> nat list list" where
  "segment_smooth_regions faces sharp_edges =
     segment_loop faces sharp_edges [0..<length faces] {} []"

subsection \<open>The regions partition the faces\<close>

lemma bfs_partition:
  assumes "bfs faces sharp_edges queue visited region = (region', visited')"
      and "distinct (region @ queue)"
      and "set (region @ queue) \<subseteq> visited"
      and "set queue \<subseteq> {0..<length faces}"
  shows "distinct region' \<and> visited' = visited \<union> set region'
       \<and> set region' \<inter> (visited - set (region @ queue)) = {}
       \<and> set (region @ queue) \<subseteq> set region'
       \<and> set region' \<subseteq> set region \<union> {0..<length faces}"
  using assms
proof (induction faces sharp_edges queue visited region rule: bfs.induct)
  case (1 faces sharp_edges visited region)
  then show ?case by auto
next
  case (2 faces sharp_edges f queue visited region)
  obtain queue' visited'' where va:
    "visit_all (smooth_neighbors faces sharp_edges f) (queue, visited) = (queue', visited'')"
    by (cases "visit_all (smooth_neighbors faces sharp_edges f) (queue, visited)")
  from visit_all_props [OF va] obtain new where new:
    "queue' = queue @ new" "visited'' = visited \<union> set new" "distinct new"
    "set new \<inter> visited = {}" "set new \<subseteq> set (smooth_neighbors faces sharp_edges f)" by blast
  have run: "bfs faces sharp_edges queue' visited'' (region @ [f]) = (region', visited')"
    using "2.prems"(1) va by simp
  have d: "distinct ((region @ [f]) @ queue')"
    using "2.prems"(2,3) new by auto
  have s: "set ((region @ [f]) @ queue') \<subseteq> visited''"
    using "2.prems"(3) new by auto
  have r: "set queue' \<subseteq> {0..<length faces}"
    using "2.prems"(4) new smooth_neighbors_range [of faces sharp_edges f] by auto
  have old: "visited'' - set ((region @ [f]) @ queue') = visited - set (region @ f # queue)"
    using new by auto
  from "2.IH" [OF va [symmetric] run d s r]
  have ih: "distinct region'" "visited' = visited'' \<union> set region'"
    "set region' \<inter> (visited'' - set ((region @ [f]) @ queue')) = {}"
    "set ((region @ [f]) @ queue') \<subseteq> set region'"
    "set region' \<subseteq> set (region @ [f]) \<union> {0..<length faces}" by simp_all
  have f: "f < length faces" using "2.prems"(4) by simp
  show ?case
  proof (intro conjI)
    show "distinct region'" by (rule ih(1))
    show "visited' = visited \<union> set region'" using ih(2,4) new by auto
    show "set region' \<inter> (visited - set (region @ f # queue)) = {}" using ih(3) old by simp
    show "set (region @ f # queue) \<subseteq> set region'" using ih(4) new by auto
    show "set region' \<subseteq> set region \<union> {0..<length faces}" using ih(5) f by auto
  qed
qed

lemma segment_loop_partition:
  assumes "distinct (concat regions)"
      and "visited = set (concat regions)"
      and "set starts \<subseteq> {0..<length faces}"
      and "visited \<subseteq> {0..<length faces}"
      and "\<forall>r \<in> set regions. r \<noteq> []"
  shows "distinct (concat (segment_loop faces sharp_edges starts visited regions))
       \<and> set (concat (segment_loop faces sharp_edges starts visited regions)) \<subseteq> {0..<length faces}
       \<and> set starts \<union> visited \<subseteq> set (concat (segment_loop faces sharp_edges starts visited regions))
       \<and> (\<forall>r \<in> set (segment_loop faces sharp_edges starts visited regions). r \<noteq> [])"
  using assms
proof (induction starts arbitrary: visited regions)
  case Nil
  then show ?case by simp
next
  case (Cons start rest)
  show ?case
  proof (cases "start \<in> visited")
    case True
    have "set rest \<subseteq> {0..<length faces}" using Cons.prems(3) by simp
    from Cons.IH [OF Cons.prems(1,2) this Cons.prems(4,5)] True show ?thesis by auto
  next
    case False
    obtain region visited' where b:
      "bfs faces sharp_edges [start] (insert start visited) [] = (region, visited')"
      by (cases "bfs faces sharp_edges [start] (insert start visited) []")
    have "distinct ([] @ [start])" "set ([] @ [start]) \<subseteq> insert start visited"
      "set [start] \<subseteq> {0..<length faces}" using Cons.prems(3) by simp_all
    from bfs_partition [OF b this]
    have p: "distinct region" "visited' = insert start visited \<union> set region"
      "set region \<inter> (insert start visited - set [start]) = {}"
      "start \<in> set region" "set region \<subseteq> {0..<length faces}" by simp_all
    have disj: "set region \<inter> visited = {}" using p(3) False by auto
    have d: "distinct (concat (regions @ [region]))"
      using Cons.prems(1,2) p(1) disj by auto
    have v: "visited' = set (concat (regions @ [region]))"
      using Cons.prems(2) p(2,4) by auto
    have r: "set rest \<subseteq> {0..<length faces}" using Cons.prems(3) by simp
    have vr: "visited' \<subseteq> {0..<length faces}" using p(2,5) Cons.prems(3,4) by auto
    have ne: "\<forall>r \<in> set (regions @ [region]). r \<noteq> []" using Cons.prems(5) p(4) by auto
    have step: "segment_loop faces sharp_edges (start # rest) visited regions =
                segment_loop faces sharp_edges rest visited' (regions @ [region])"
      using False b by simp
    from Cons.IH [OF d v r vr ne] show ?thesis
      unfolding step using p(2,4) by auto
  qed
qed

lemma segment_smooth_regions_concat:
  "distinct (concat (segment_smooth_regions faces sharp_edges))"
  "set (concat (segment_smooth_regions faces sharp_edges)) = {0..<length faces}"
  "\<forall>r \<in> set (segment_smooth_regions faces sharp_edges). r \<noteq> []"
proof -
  have "distinct (concat ([] :: nat list list))" "{} = set (concat ([] :: nat list list))"
    "set [0..<length faces] \<subseteq> {0..<length faces}" "({} :: nat set) \<subseteq> {0..<length faces}"
    "\<forall>r \<in> set ([] :: nat list list). r \<noteq> []" by simp_all
  from segment_loop_partition [OF this, of sharp_edges]
  show "distinct (concat (segment_smooth_regions faces sharp_edges))"
    "set (concat (segment_smooth_regions faces sharp_edges)) = {0..<length faces}"
    "\<forall>r \<in> set (segment_smooth_regions faces sharp_edges). r \<noteq> []"
    unfolding segment_smooth_regions_def by auto
qed

lemma concat_partition:
  assumes "distinct (concat xss)" and "\<forall>xs \<in> set xss. xs \<noteq> []"
  shows "\<forall>i < length xss. \<forall>j < length xss. i \<noteq> j \<longrightarrow> set (xss ! i) \<inter> set (xss ! j) = {}"
    and "\<forall>x \<in> set (concat xss). \<exists>!i. i < length xss \<and> x \<in> set (xss ! i)"
proof -
  have "removeAll [] xss = xss" using assms(2) by (intro removeAll_id) auto
  then have dx: "distinct xss" using assms(1) by (simp add: distinct_concat_iff)
  have disj: "set ys \<inter> set zs = {}" if "ys \<in> set xss" "zs \<in> set xss" "ys \<noteq> zs" for ys zs
    using assms(1) that by (simp add: distinct_concat_iff)
  show a: "\<forall>i < length xss. \<forall>j < length xss. i \<noteq> j \<longrightarrow> set (xss ! i) \<inter> set (xss ! j) = {}"
    using dx disj by (simp add: nth_eq_iff_index_eq)
  show "\<forall>x \<in> set (concat xss). \<exists>!i. i < length xss \<and> x \<in> set (xss ! i)"
  proof
    fix x assume "x \<in> set (concat xss)"
    then obtain xs where "xs \<in> set xss" "x \<in> set xs" by auto
    then obtain i where i: "i < length xss" "x \<in> set (xss ! i)" by (auto simp: in_set_conv_nth)
    show "\<exists>!i. i < length xss \<and> x \<in> set (xss ! i)"
    proof (rule ex1I [of _ i])
      show "i < length xss \<and> x \<in> set (xss ! i)" using i by simp
    next
      fix j assume "j < length xss \<and> x \<in> set (xss ! j)"
      then show "j = i" using a i by blast
    qed
  qed
qed

lemma export_regions_from_column:
  assumes "\<forall>r \<in> set regions. \<forall>f \<in> set r. f < length faces"
  shows "\<exists>rows. export_regions_from faces i regions = Inr rows
           \<and> map (\<lambda>row. py_int (row ! 1)) rows = map (\<lambda>f. Inr (int f)) (concat regions)"
  using assms
proof (induction regions arbitrary: i)
  case Nil
  then show ?case by simp
next
  case (Cons r regions)
  have r: "\<forall>f \<in> set r. f < length faces" using Cons.prems by simp
  have "\<forall>r \<in> set regions. \<forall>f \<in> set r. f < length faces" using Cons.prems by simp
  from Cons.IH [OF this, of "Suc i"] obtain more where more:
    "export_regions_from faces (Suc i) regions = Inr more"
    "map (\<lambda>row. py_int (row ! 1)) more = map (\<lambda>f. Inr (int f)) (concat regions)" by blast
  have col: "py_int (region_row i f fc ! 1) = Inr (int f)" for f fc
    by (simp add: region_row_def py_int_str_nat split: prod.splits)
  show ?case
    using more(2) col by (simp add: export_region_rows_ok [OF r] more(1) comp_def)
qed

text \<open>
  Claim C1. For every face list and every set of sharp edges, the regions returned by
  segment_smooth_regions partition the face indices: every index below the number of
  faces lies in exactly one region, two different regions share no face, the union of
  the regions is the set of all face indices, and no face is listed twice. export_regions
  succeeds on them, and the face_index column of the rows it writes is the regions'
  faces one after the other, so each face index is written exactly once.
\<close>

theorem segment_smooth_regions_partition:
  "(let regions = segment_smooth_regions faces sharp_edges in
      (\<forall>f < length faces. \<exists>!i. i < length regions \<and> f \<in> set (regions ! i))
    \<and> (\<forall>i < length regions. \<forall>j < length regions. i \<noteq> j \<longrightarrow>
          set (regions ! i) \<inter> set (regions ! j) = {})
    \<and> (\<Union>r \<in> set regions. set r) = {0..<length faces}
    \<and> distinct (concat regions)
    \<and> (\<exists>csvfile. export_regions regions faces = Inr csvfile
          \<and> map (\<lambda>row. py_int (row ! 1)) (tl csvfile) = map (\<lambda>f. Inr (int f)) (concat regions)))"
proof -
  let ?rs = "segment_smooth_regions faces sharp_edges"
  note c = segment_smooth_regions_concat [of faces sharp_edges]
  note p = concat_partition [OF c(1) c(3)]
  have a: "\<forall>f < length faces. \<exists>!i. i < length ?rs \<and> f \<in> set (?rs ! i)"
    using p(2) [unfolded c(2)] by simp
  have u: "(\<Union>r \<in> set ?rs. set r) = {0..<length faces}" using c(2) by simp
  have "\<forall>r \<in> set ?rs. \<forall>f \<in> set r. f < length faces" using c(2) by fastforce
  from export_regions_from_column [OF this, of 0] obtain rows where rows:
    "export_regions_from faces 0 ?rs = Inr rows"
    "map (\<lambda>row. py_int (row ! 1)) rows = map (\<lambda>f. Inr (int f)) (concat ?rs)" by blast
  have e: "\<exists>csvfile. export_regions ?rs faces = Inr csvfile
          \<and> map (\<lambda>row. py_int (row ! 1)) (tl csvfile) = map (\<lambda>f. Inr (int f)) (concat ?rs)"
    using rows(2) by (simp add: export_regions_def rows(1))
  show ?thesis unfolding Let_def using a p(1) u c(1) e by blast
qed

theorem segment_smooth_regions_partition_witness:
  "segment_smooth_regions [(0, 1, 2), (1, 3, 2), (2, 3, 4)] {(2, 3)} = [[0, 1], [2]]
   \<and> (\<Union>r \<in> set (segment_smooth_regions [(0, 1, 2), (1, 3, 2), (2, 3, 4)] {(2, 3)}). set r) = {0..<3}
   \<and> distinct (concat (segment_smooth_regions [(0, 1, 2), (1, 3, 2), (2, 3, 4)] {(2, 3)}))"
proof -
  have v: "segment_smooth_regions [(0, 1, 2), (1, 3, 2), (2, 3, 4)] {(2, 3)} = [[0, 1], [2]]"
    by (simp add: segment_smooth_regions_def smooth_neighbors_def edge_neighbors_def
        build_edge_face_map_def add_face_edges_def sorted_edge_def upt_rec)
  have "(\<Union>r \<in> set (segment_smooth_regions [(0, 1, 2), (1, 3, 2), (2, 3, 4)] {(2, 3)}). set r)
          = {0..<length [(0, 1, 2), (1, 3, 2), (2, 3, 4 :: nat) :: face]}
     \<and> distinct (concat (segment_smooth_regions [(0, 1, 2), (1, 3, 2), (2, 3, 4)] {(2, 3)}))"
    using segment_smooth_regions_partition [of "[(0, 1, 2), (1, 3, 2), (2, 3, 4)]" "{(2, 3)}"]
    unfolding Let_def by blast
  then show ?thesis using v by (simp add: numeral_3_eq_3)
qed

section \<open>scripts/crease_identification.py: process_single_mesh and main\<close>

text \<open>A loaded mesh: the vertex positions and the faces.\<close>

record mesh =
  mesh_vertices :: "vertex list"
  mesh_faces :: "face list"

text \<open>
  The dictionary that process_single_mesh returns, without the two directory names; the
  fields carry the prefix \<open>res\<close> to keep them apart from the statistics.
\<close>

record mesh_result =
  res_mesh_name :: string
  res_num_vertices :: nat
  res_num_faces :: nat
  res_num_interior_edges :: nat
  res_num_sharp_edges :: nat
  res_num_regions :: nat

text \<open>
  Steps 1 to 3, then generate_statistics and export_regions, either of which may raise.
  The two heatmaps and export_sharp_edges only draw or write and are left out.
\<close>

definition process_single_mesh ::
  "(vertex list \<Rightarrow> face \<Rightarrow> face \<Rightarrow> edge \<Rightarrow> real) \<Rightarrow> mesh \<Rightarrow> real \<Rightarrow> string \<Rightarrow> error + mesh_result" where
  "process_single_mesh angle_at mesh theta0_deg mesh_name =
     (let dihedral_angles = compute_dihedral_angles angle_at (mesh_vertices mesh) (mesh_faces mesh);
          sharp_edges = detect_sharp_edges angle_at (mesh_vertices mesh) (mesh_faces mesh) theta0_deg;
          regions = segment_smooth_regions (mesh_faces mesh) sharp_edges
      in case generate_statistics dihedral_angles sharp_edges regions theta0_deg of
           Inl e \<Rightarrow> Inl e
         | Inr stats \<Rightarrow>
             (case export_regions regions (mesh_faces mesh) of
                Inl e \<Rightarrow> Inl e
              | Inr csvfile \<Rightarrow>
                  Inr \<lparr> res_mesh_name = mesh_name,
                        res_num_vertices = length (mesh_vertices mesh),
                        res_num_faces = length (mesh_faces mesh),
                        res_num_interior_edges = length dihedral_angles,
                        res_num_sharp_edges = card sharp_edges,
                        res_num_regions = length regions \<rparr>))"

text \<open>The loop \<^verbatim>\<open>for obj_file in obj_files\<close> of main, on the meshes already loaded.\<close>

fun process_all ::
  "(vertex list \<Rightarrow> face \<Rightarrow> face \<Rightarrow> edge \<Rightarrow> real) \<Rightarrow> (string \<times> mesh) list \<Rightarrow> real \<Rightarrow> error + mesh_result list" where
  "process_all angle_at [] threshold = Inr []"
| "process_all angle_at ((mesh_name, mesh) # obj_files) threshold =
     (case process_single_mesh angle_at mesh threshold mesh_name of
        Inl e \<Rightarrow> Inl e
      | Inr result \<Rightarrow>
          (case process_all angle_at obj_files threshold of
             Inl e \<Rightarrow> Inl e
           | Inr summary \<Rightarrow> Inr (result # summary)))"

text \<open>
  The loop \<^verbatim>\<open>for res in summary\<close> of main: the percentage printed for every mesh,
  \<^verbatim>\<open>res['num_sharp_edges']/res['num_interior_edges']*100\<close>.
\<close>

fun summary_lines :: "mesh_result list \<Rightarrow> error + real list" where
  "summary_lines [] = Inr []"
| "summary_lines (res # summary) =
     (case py_div (real (res_num_sharp_edges res)) (real (res_num_interior_edges res)) of
        Inl e \<Rightarrow> Inl e
      | Inr q \<Rightarrow>
          (case summary_lines summary of
             Inl e \<Rightarrow> Inl e
           | Inr qs \<Rightarrow> Inr (q * 100 # qs)))"

text \<open>
  main, from the parsed arguments on: the threshold option (45.0 when absent) and the
  meshes found. No mesh ends the run with \<^verbatim>\<open>sys.exit(1)\<close>.
\<close>

definition main ::
  "(vertex list \<Rightarrow> face \<Rightarrow> face \<Rightarrow> edge \<Rightarrow> real) \<Rightarrow> (string \<times> mesh) list \<Rightarrow> real option \<Rightarrow> error + mesh_result list" where
  "main angle_at obj_files threshold_arg =
     (let threshold = (case threshold_arg of None \<Rightarrow> 45 | Some t \<Rightarrow> t) in
      if obj_files = [] then Inl SystemExit
      else (case process_all angle_at obj_files threshold of
              Inl e \<Rightarrow> Inl e
            | Inr summary \<Rightarrow>
                (case summary_lines summary of
                   Inl e \<Rightarrow> Inl e
                 | Inr percentages \<Rightarrow> Inr summary)))"

text \<open>A mesh of one triangle.\<close>

definition single_triangle :: mesh where
  "single_triangle = \<lparr> mesh_vertices = [(0, 0, 0), (1, 0, 0), (0, 1, 0)], mesh_faces = [(0, 1, 2)] \<rparr>"

section \<open>Sharp edges and the threshold\<close>

lemma compute_dihedral_angles_keys:
  "distinct (map fst (compute_dihedral_angles angle_at vertices faces))"
proof -
  have "distinct (map fst (build_edge_face_map faces))"
    unfolding build_edge_face_map_pairs by (rule distinct_dict_of_pairs) simp
  then have "distinct (map fst (filter (\<lambda>(e, fl). length fl = 2) (build_edge_face_map faces)))"
    by (simp add: distinct_map_filter)
  moreover have "map fst (compute_dihedral_angles angle_at vertices faces) =
      map fst (filter (\<lambda>(e, fl). length fl = 2) (build_edge_face_map faces))"
    by (simp add: compute_dihedral_angles_def comp_def case_prod_beta)
  ultimately show ?thesis by simp
qed

lemma map_of_filter_map:
  assumes "distinct (map fst m)"
  shows "map_of (map (\<lambda>(k, v). (k, h k v)) (filter (\<lambda>(k, v). P v) m)) k =
         (case map_of m k of None \<Rightarrow> None | Some v \<Rightarrow> if P v then Some (h k v) else None)"
  using assms
proof (induction m)
  case Nil
  then show ?case by simp
next
  case (Cons p m)
  obtain k' v' where p: "p = (k', v')" by (cases p)
  have notin: "map_of m k' = None" using Cons.prems p by (simp add: map_of_eq_None_iff)
  show ?case
  proof (cases "k' = k")
    case True
    then show ?thesis using Cons p notin by simp
  next
    case False
    then show ?thesis using Cons p by simp
  qed
qed

lemma build_edge_face_map_lookup:
  "map_of (build_edge_face_map faces) e =
     (if incident_faces ((!) faces) [0..<length faces] e = [] then None
      else Some (incident_faces ((!) faces) [0..<length faces] e))"
  unfolding build_edge_face_map_pairs
  by (simp add: map_of_dict_of_pairs entry_def incident_faces_eq_Nil)
     (simp add: incident_faces_def)

lemma compute_dihedral_angles_lookup:
  "map_of (compute_dihedral_angles angle_at vertices faces) e =
     (let fl = incident_faces ((!) faces) [0..<length faces] e
      in if length fl = 2
         then Some (angle_at vertices (faces ! (fl ! 0)) (faces ! (fl ! 1)) e) else None)"
proof -
  have d: "distinct (map fst (build_edge_face_map faces))"
    unfolding build_edge_face_map_pairs by (rule distinct_dict_of_pairs) simp
  show ?thesis
    unfolding compute_dihedral_angles_def
    using map_of_filter_map [OF d,
        of "\<lambda>e fl. angle_at vertices (faces ! (fl ! 0)) (faces ! (fl ! 1)) e" "\<lambda>fl. length fl = 2" e]
    by (simp add: build_edge_face_map_lookup Let_def)
qed

text \<open>
  Claim C2. For every mesh and thresholds t1 < t2, every edge that detect_sharp_edges
  returns at t2 it also returns at t1.
\<close>

theorem detect_sharp_edges_antimono:
  "t1 < t2 \<Longrightarrow>
   detect_sharp_edges angle_at vertices faces t2 \<subseteq> detect_sharp_edges angle_at vertices faces t1"
  by (auto simp: detect_sharp_edges_def)

text \<open>
  Claim C3. An edge is in the set returned by detect_sharp_edges if and only if it has a
  dihedral angle (it is an interior edge) and that angle is greater than or equal to the
  threshold; in particular an edge whose angle equals the threshold is sharp. Every sharp
  edge has exactly two incident faces.
\<close>

theorem detect_sharp_edges_inclusive:
  "(e \<in> detect_sharp_edges angle_at vertices faces theta0_deg \<longleftrightarrow>
      (\<exists>angle. map_of (compute_dihedral_angles angle_at vertices faces) e = Some angle
              \<and> angle \<ge> theta0_deg))
   \<and> (map_of (compute_dihedral_angles angle_at vertices faces) e = Some theta0_deg \<longrightarrow>
        e \<in> detect_sharp_edges angle_at vertices faces theta0_deg)
   \<and> (e \<in> detect_sharp_edges angle_at vertices faces theta0_deg \<longrightarrow>
        length (incident_faces ((!) faces) [0..<length faces] e) = 2)"
proof -
  have i: "length (incident_faces ((!) faces) [0..<length faces] e) = 2"
    if "map_of (compute_dihedral_angles angle_at vertices faces) e = Some angle" for angle
    using that by (simp add: compute_dihedral_angles_lookup Let_def split: if_splits)
  have "(e \<in> detect_sharp_edges angle_at vertices faces theta0_deg) \<longleftrightarrow>
      (\<exists>angle. (e, angle) \<in> set (compute_dihedral_angles angle_at vertices faces)
              \<and> angle \<ge> theta0_deg)"
    by (cases e) (auto simp: detect_sharp_edges_def image_iff)
  then have m: "(e \<in> detect_sharp_edges angle_at vertices faces theta0_deg) \<longleftrightarrow>
      (\<exists>angle. map_of (compute_dihedral_angles angle_at vertices faces) e = Some angle
              \<and> angle \<ge> theta0_deg)"
    using compute_dihedral_angles_keys [of angle_at vertices faces] by auto
  show ?thesis using m i by auto
qed

theorem detect_sharp_edges_antimono_witness:
  "detect_sharp_edges (\<lambda>vs f g e. real (fst e) * 30) [] [(0, 1, 2), (1, 3, 2), (2, 3, 4)] 70
     \<subseteq> detect_sharp_edges (\<lambda>vs f g e. real (fst e) * 30) [] [(0, 1, 2), (1, 3, 2), (2, 3, 4)] 20"
proof -
  have h: "(20 :: real) < 70" by simp
  show ?thesis by (rule detect_sharp_edges_antimono [OF h])
qed

theorem detect_sharp_edges_inclusive_witness:
  "(2, 3) \<in> detect_sharp_edges (\<lambda>vs f g e. real (fst e) * 30) [] [(0, 1, 2), (1, 3, 2), (2, 3, 4)] 60
   \<and> (1, 2) \<notin> detect_sharp_edges (\<lambda>vs f g e. real (fst e) * 30) [] [(0, 1, 2), (1, 3, 2), (2, 3, 4)] 60"
proof -
  let ?cda = "compute_dihedral_angles (\<lambda>vs f g e. real (fst e) * 30) [] [(0, 1, 2), (1, 3, 2), (2, 3, 4)]"
  have v: "?cda = [((1, 2), 30), ((2, 3), 60)]"
    by (simp add: compute_dihedral_angles_def build_edge_face_map_def add_face_edges_def
        sorted_edge_def)
  show ?thesis
    using detect_sharp_edges_inclusive [of "(2, 3)" "\<lambda>vs f g e. real (fst e) * 30" "[]"
        "[(0, 1, 2), (1, 3, 2), (2, 3, 4)]" 60, unfolded v]
      detect_sharp_edges_inclusive [of "(1, 2)" "\<lambda>vs f g e. real (fst e) * 30" "[]"
        "[(0, 1, 2), (1, 3, 2), (2, 3, 4)]" 60, unfolded v]
    by simp
qed

section \<open>A single triangle\<close>

text \<open>
  Claim C8. On a mesh of one triangle there is no interior edge, no sharp edge and one
  region holding face 0, and process_single_mesh returns these counts. main then divides
  the number of sharp edges by the number of interior edges, which is zero, and the run
  ends with ZeroDivisionError instead of the summary.
\<close>

theorem single_triangle_summary_division:
  "compute_dihedral_angles angle_at (mesh_vertices single_triangle) (mesh_faces single_triangle) = []
   \<and> detect_sharp_edges angle_at (mesh_vertices single_triangle) (mesh_faces single_triangle) t = {}
   \<and> segment_smooth_regions (mesh_faces single_triangle) {} = [[0]]
   \<and> process_single_mesh angle_at single_triangle t ''triangle'' =
       Inr \<lparr> res_mesh_name = ''triangle'', res_num_vertices = 3, res_num_faces = 1,
             res_num_interior_edges = 0, res_num_sharp_edges = 0, res_num_regions = 1 \<rparr>
   \<and> main angle_at [(''triangle'', single_triangle)] (Some t) = Inl ZeroDivisionError"
proof -
  have a: "compute_dihedral_angles angle_at (mesh_vertices single_triangle) (mesh_faces single_triangle) = []"
    by (simp add: single_triangle_def compute_dihedral_angles_def build_edge_face_map_def
        add_face_edges_def sorted_edge_def)
  have b: "detect_sharp_edges angle_at (mesh_vertices single_triangle) (mesh_faces single_triangle) t = {}"
    by (simp add: detect_sharp_edges_def a)
  have c: "segment_smooth_regions (mesh_faces single_triangle) {} = [[0]]"
    by (simp add: single_triangle_def segment_smooth_regions_def smooth_neighbors_def
        edge_neighbors_def build_edge_face_map_def add_face_edges_def sorted_edge_def)
  obtain csvfile where e: "export_regions [[0]] (mesh_faces single_triangle) = Inr csvfile"
    by (simp add: single_triangle_def export_regions_def)
  have l: "length (mesh_vertices single_triangle) = 3" "length (mesh_faces single_triangle) = 1"
    by (simp_all add: single_triangle_def)
  have d: "process_single_mesh angle_at single_triangle t ''triangle'' =
       Inr \<lparr> res_mesh_name = ''triangle'', res_num_vertices = 3, res_num_faces = 1,
             res_num_interior_edges = 0, res_num_sharp_edges = 0, res_num_regions = 1 \<rparr>"
    by (simp add: process_single_mesh_def a b c generate_statistics_def e l)
  have m: "main angle_at [(''triangle'', single_triangle)] (Some t) = Inl ZeroDivisionError"
    by (simp add: main_def d py_div_def)
  show ?thesis using a b c d m by blast
qed

end
